theory Spec2Isabelle
  imports Complex_Main "HOL-Library.Sublist"
begin

section \<open>Text: characters, whitespace, lines\<close>

text \<open>
  A Python \<open>str\<close> is modelled as a \<open>string\<close>: each \<open>char\<close> stands for one code point
  below 256. On that range \<open>str.isspace\<close> (used by \<open>str.strip\<close> and by the pattern
  class \<open>\s\<close>) holds exactly for the twelve code points listed in \<open>isspace\<close>, the
  pattern class \<open>\d\<close> holds exactly for the ten ASCII digits, and \<open>.\<close> matches
  everything except the line feed.
\<close>

definition LF :: char where
  "LF = CHR 0x0A"

definition isspace :: "char \<Rightarrow> bool" where
  "isspace c \<longleftrightarrow> c \<in> set [CHR 0x09, CHR 0x0A, CHR 0x0B, CHR 0x0C, CHR 0x0D,
     CHR 0x1C, CHR 0x1D, CHR 0x1E, CHR 0x1F, CHR 0x20, CHR 0x85, CHR 0xA0]"

definition isdigit :: "char \<Rightarrow> bool" where
  "isdigit c \<longleftrightarrow> c \<in> set ''0123456789''"

text \<open>\<open>s.strip()\<close>: whitespace removed at both ends.\<close>

definition rstrip :: "string \<Rightarrow> string" where
  "rstrip s = rev (dropWhile isspace (rev s))"

definition strip :: "string \<Rightarrow> string" where
  "strip s = rstrip (dropWhile isspace s)"

text \<open>\<open>s.split('\n')\<close>: the pieces between line feeds; the empty text gives one empty piece.\<close>

fun split_lines :: "string \<Rightarrow> string list" where
  "split_lines [] = [[]]"
| "split_lines (c # cs) =
     (if c = LF then [] # split_lines cs
      else (case split_lines cs of l # ls \<Rightarrow> (c # l) # ls | [] \<Rightarrow> [[c]]))"

section \<open>The pattern language of the extractors\<close>

text \<open>
  The extractors use \<open>re.search\<close> with patterns that are sequences of single-character
  classes under a quantifier, an optional literal word, and capture groups. \<open>rx_match\<close>
  is the backtracking matcher of Python's \<open>re\<close> for such sequences: a greedy quantifier
  first tries one more repetition and falls back to the rest of the pattern, a lazy one
  first tries the rest of the pattern and falls back to one more repetition. A match is
  the list of the input suffixes at every group boundary, followed by the suffix at the
  end of the match (the match object's spans, counted from the end of the text).
\<close>

datatype cclass = Lit char | Space | Digit | Dot | DotAll

fun cmatch :: "cclass \<Rightarrow> char \<Rightarrow> bool" where
  "cmatch (Lit c) x \<longleftrightarrow> x = c"
| "cmatch Space x \<longleftrightarrow> isspace x"
| "cmatch Digit x \<longleftrightarrow> isdigit x"
| "cmatch Dot x \<longleftrightarrow> x \<noteq> LF"
| "cmatch DotAll x \<longleftrightarrow> True"

datatype rx = One cclass | Star cclass | Plus cclass | LazyStar cclass | LazyPlus cclass
  | Opt string | Mark

definition lits :: "string \<Rightarrow> rx list" where
  "lits w = map (\<lambda>c. One (Lit c)) w"

definition startswith :: "string \<Rightarrow> string \<Rightarrow> bool" where
  "startswith s p \<longleftrightarrow> take (length p) s = p"

function rx_match :: "rx list \<Rightarrow> string \<Rightarrow> string list option" where
  "rx_match [] s = Some [s]"
| "rx_match (Mark # rs) s = map_option (Cons s) (rx_match rs s)"
| "rx_match (One c # rs) [] = None"
| "rx_match (One c # rs) (x # xs) = (if cmatch c x then rx_match rs xs else None)"
| "rx_match (Star c # rs) [] = rx_match rs []"
| "rx_match (Star c # rs) (x # xs) =
     (if cmatch c x
      then (case rx_match (Star c # rs) xs of Some m \<Rightarrow> Some m | None \<Rightarrow> rx_match rs (x # xs))
      else rx_match rs (x # xs))"
| "rx_match (Plus c # rs) [] = None"
| "rx_match (Plus c # rs) (x # xs) = (if cmatch c x then rx_match (Star c # rs) xs else None)"
| "rx_match (LazyStar c # rs) [] = rx_match rs []"
| "rx_match (LazyStar c # rs) (x # xs) =
     (case rx_match rs (x # xs) of
        Some m \<Rightarrow> Some m
      | None \<Rightarrow> (if cmatch c x then rx_match (LazyStar c # rs) xs else None))"
| "rx_match (LazyPlus c # rs) [] = None"
| "rx_match (LazyPlus c # rs) (x # xs) =
     (if cmatch c x then rx_match (LazyStar c # rs) xs else None)"
| "rx_match (Opt w # rs) s =
     (if startswith s w
      then (case rx_match rs (drop (length w) s) of Some m \<Rightarrow> Some m | None \<Rightarrow> rx_match rs s)
      else rx_match rs s)"
  by pat_completeness auto
termination
  by (relation "(\<lambda>(rs, s). length s) <*mlex*> measure (\<lambda>(rs, s). length rs)")
     (auto simp: wf_mlex mlex_less mlex_leq)

text \<open>\<open>re.search\<close>: the match at the leftmost start position that has one.\<close>

fun rx_search :: "rx list \<Rightarrow> string \<Rightarrow> string list option" where
  "rx_search rs [] = rx_match rs []"
| "rx_search rs (x # xs) =
     (case rx_match rs (x # xs) of Some m \<Rightarrow> Some m | None \<Rightarrow> rx_search rs xs)"

datatype py_error = ValueError | IndexError | TypeError | TransportError | JSONDecodeError

text \<open>\<open>m.group(1)\<close> and \<open>m.group(2)\<close>: the text between the group's two boundaries;
  IndexError when the pattern has no such group.\<close>

definition between :: "string \<Rightarrow> string \<Rightarrow> string" where
  "between a b = take (length a - length b) a"

fun group1 :: "string list \<Rightarrow> py_error + string" where
  "group1 (a # b # _) = Inr (between a b)"
| "group1 _ = Inl IndexError"

fun group2 :: "string list \<Rightarrow> py_error + string" where
  "group2 (_ # _ # a # b # _) = Inr (between a b)"
| "group2 _ = Inl IndexError"

section \<open>Numbers\<close>

text \<open>
  A Python \<open>float\<close> is modelled by the rational number its decimal text denotes; the
  rounding to the nearest binary double is outside the model. \<open>py_float\<close> is \<open>float(s)\<close>
  on the form \<open>digits.digits\<close>, the only form the patterns capture; every other text is
  reported as ValueError (Python accepts more forms, so the model raises wherever
  Python does). \<open>decimal a b\<close> is the number written \<open>a.b\<close>.
\<close>

definition digit_val :: "char \<Rightarrow> nat" where
  "digit_val c = of_char c - 48"

definition digits_val :: "string \<Rightarrow> nat" where
  "digits_val s = foldl (\<lambda>a c. 10 * a + digit_val c) 0 s"

definition decimal :: "string \<Rightarrow> string \<Rightarrow> rat" where
  "decimal a b = of_nat (digits_val (a @ b)) / 10 ^ length b"

definition py_float :: "string \<Rightarrow> py_error + rat" where
  "py_float s =
     (let a = takeWhile isdigit s in
      case dropWhile isdigit s of
        [] \<Rightarrow> Inl ValueError
      | c # b \<Rightarrow>
          if c = CHR ''.'' \<and> a \<noteq> [] \<and> b \<noteq> [] \<and> list_all isdigit b
          then Inr (decimal a b)
          else Inl ValueError)"

section \<open>PatternExtractor: \<open>regex_parser.parse_receipt\<close>\<close>

record item =
  description :: string
  amount :: rat

record receipt =
  merchant :: "string option"
  date :: "string option"
  invoice_number :: "string option"
  items :: "item list"
  subtotal :: "rat option"
  tax :: "rat option"
  total_amt :: "rat option"
  parser_used :: string

text \<open>The patterns, in the order of the source.\<close>

definition date_rx :: "rx list" where
  "date_rx = lits ''Date:'' @ [Star Space, Mark, Plus Dot, Mark]"

definition invoice_rx :: "rx list" where
  "invoice_rx = lits ''Invoice #:'' @ [Star Space, Mark, Plus Dot, Mark]"

definition money_rx :: "rx list" where
  "money_rx = [Star Space, One (Lit CHR ''$''), Mark, Plus Digit, One (Lit CHR ''.''), Plus Digit, Mark]"

definition total_rx :: "rx list" where
  "total_rx = lits ''TOTAL:'' @ money_rx"

definition subtotal_rx :: "rx list" where
  "subtotal_rx = lits ''Subtotal:'' @ money_rx"

definition tax_rx :: "rx list" where
  "tax_rx = lits ''Tax'' @ [LazyStar Dot, One (Lit CHR '':'')] @ money_rx"

definition item_rx :: "rx list" where
  "item_rx = [One (Lit CHR ''-''), Star Space, Mark, LazyPlus Dot, Mark, Star Space]
     @ lits ''...'' @ money_rx"

text \<open>The first line that is not blank, stripped (the loop with \<open>break\<close>).\<close>

fun find_merchant :: "string list \<Rightarrow> string option" where
  "find_merchant [] = None"
| "find_merchant (l # ls) = (if strip l \<noteq> [] then Some (strip l) else find_merchant ls)"

text \<open>\<open>m = re.search(p, text); if m: field = m.group(1).strip()\<close>\<close>

definition text_field :: "rx list \<Rightarrow> string \<Rightarrow> py_error + string option" where
  "text_field p t =
     (case rx_search p t of
        None \<Rightarrow> Inr None
      | Some m \<Rightarrow> (case group1 m of Inl e \<Rightarrow> Inl e | Inr g \<Rightarrow> Inr (Some (strip g))))"

text \<open>\<open>m = re.search(p, text); if m: field = float(m.group(1))\<close>\<close>

definition money_field :: "rx list \<Rightarrow> string \<Rightarrow> py_error + rat option" where
  "money_field p t =
     (case rx_search p t of
        None \<Rightarrow> Inr None
      | Some m \<Rightarrow>
          (case group1 m of
             Inl e \<Rightarrow> Inl e
           | Inr g \<Rightarrow> (case py_float g of Inl e \<Rightarrow> Inl e | Inr v \<Rightarrow> Inr (Some v))))"

text \<open>The loop over the lines that collects the items; lines whose stripped text starts with
  a dash and that match the item pattern add one item, all others are skipped.\<close>

fun find_items :: "string list \<Rightarrow> py_error + item list" where
  "find_items [] = Inr []"
| "find_items (l # ls) =
     (if startswith (strip l) ''-'' then
        (case rx_search item_rx l of
           None \<Rightarrow> find_items ls
         | Some m \<Rightarrow>
             (case group1 m of
                Inl e \<Rightarrow> Inl e
              | Inr d \<Rightarrow>
                  (case group2 m of
                     Inl e \<Rightarrow> Inl e
                   | Inr g \<Rightarrow>
                       (case py_float g of
                          Inl e \<Rightarrow> Inl e
                        | Inr v \<Rightarrow>
                            (case find_items ls of
                               Inl e \<Rightarrow> Inl e
                             | Inr its \<Rightarrow> Inr (\<lparr>description = strip d, amount = v\<rparr> # its))))))
      else find_items ls)"

definition bind_err :: "py_error + 'a \<Rightarrow> ('a \<Rightarrow> py_error + 'b) \<Rightarrow> py_error + 'b" where
  "bind_err r f = (case r of Inl e \<Rightarrow> Inl e | Inr v \<Rightarrow> f v)"

definition parse_receipt :: "string \<Rightarrow> py_error + receipt" where
  "parse_receipt receipt_text =
     (let lines = split_lines (strip receipt_text) in
      bind_err (text_field date_rx receipt_text) (\<lambda>d.
      bind_err (text_field invoice_rx receipt_text) (\<lambda>inv.
      bind_err (money_field total_rx receipt_text) (\<lambda>tot.
      bind_err (money_field subtotal_rx receipt_text) (\<lambda>sub.
      bind_err (money_field tax_rx receipt_text) (\<lambda>tx.
      bind_err (find_items lines) (\<lambda>its.
      Inr \<lparr>merchant = find_merchant lines, date = d, invoice_number = inv, items = its,
           subtotal = sub, tax = tx, total_amt = tot, parser_used = ''regex''\<rparr>)))))))"

section \<open>Python values: what \<open>json.loads\<close> returns and what the parsers hand on\<close>

text \<open>
  A dict is an association list with distinct keys, in insertion order. Numbers are
  rationals (an \<open>int\<close> and the \<open>float\<close> of the same value are equal in Python as well).
\<close>

datatype pyval = PNone | PBool bool | PNum rat | PStr string | PList "pyval list"
  | PDict "(string \<times> pyval) list"

type_synonym pydict = "(string \<times> pyval) list"

text \<open>\<open>d.get(k)\<close> and \<open>d.get(k, default)\<close>.\<close>

definition dict_get :: "pydict \<Rightarrow> string \<Rightarrow> pyval" where
  "dict_get d k = (case map_of d k of None \<Rightarrow> PNone | Some v \<Rightarrow> v)"

definition dict_get_default :: "pydict \<Rightarrow> string \<Rightarrow> pyval \<Rightarrow> pyval" where
  "dict_get_default d k dflt = (case map_of d k of None \<Rightarrow> dflt | Some v \<Rightarrow> v)"

text \<open>\<open>len(x)\<close>: defined on strings, lists and dicts; TypeError on None, booleans and
  numbers.\<close>

fun py_len :: "pyval \<Rightarrow> py_error + nat" where
  "py_len (PStr s) = Inr (length s)"
| "py_len (PList xs) = Inr (length xs)"
| "py_len (PDict d) = Inr (length d)"
| "py_len _ = Inl TypeError"

text \<open>\<open>x == y\<close>: None equals only None, a boolean equals the number 1 or 0, lists are equal
  element by element, dicts when they have the same keys with equal values.\<close>

fun bool_num :: "bool \<Rightarrow> rat" where
  "bool_num True = 1"
| "bool_num False = 0"

function py_eq :: "pyval \<Rightarrow> pyval \<Rightarrow> bool" where
  "py_eq PNone y \<longleftrightarrow> y = PNone"
| "py_eq (PBool a) y \<longleftrightarrow> y = PBool a \<or> y = PNum (bool_num a)"
| "py_eq (PNum p) y \<longleftrightarrow> y = PNum p \<or> y = PBool True \<and> p = 1 \<or> y = PBool False \<and> p = 0"
| "py_eq (PStr s) y \<longleftrightarrow> y = PStr s"
| "py_eq (PList xs) (PList ys) \<longleftrightarrow> list_all2 py_eq xs ys"
| "py_eq (PList xs) PNone \<longleftrightarrow> False"
| "py_eq (PList xs) (PBool b) \<longleftrightarrow> False"
| "py_eq (PList xs) (PNum q) \<longleftrightarrow> False"
| "py_eq (PList xs) (PStr s) \<longleftrightarrow> False"
| "py_eq (PList xs) (PDict e) \<longleftrightarrow> False"
| "py_eq (PDict d) (PDict e) \<longleftrightarrow>
     length d = length e \<and>
     list_all (\<lambda>(k, v). list_ex (\<lambda>(k', w). k' = k \<and> py_eq v w) e) d"
| "py_eq (PDict d) PNone \<longleftrightarrow> False"
| "py_eq (PDict d) (PBool b) \<longleftrightarrow> False"
| "py_eq (PDict d) (PNum q) \<longleftrightarrow> False"
| "py_eq (PDict d) (PStr s) \<longleftrightarrow> False"
| "py_eq (PDict d) (PList ys) \<longleftrightarrow> False"
  by pat_completeness auto
termination
  by (relation "measure (\<lambda>(x, y). size x)") (auto simp: less_Suc_eq_le size_list_estimation' dest!: size_list_estimation'[rotated])

text \<open>The dict that \<open>regex_parser.parse_receipt\<close> builds, key by key.\<close>

definition opt_str :: "string option \<Rightarrow> pyval" where
  "opt_str x = (case x of None \<Rightarrow> PNone | Some s \<Rightarrow> PStr s)"

definition opt_num :: "rat option \<Rightarrow> pyval" where
  "opt_num x = (case x of None \<Rightarrow> PNone | Some v \<Rightarrow> PNum v)"

definition item_dict :: "item \<Rightarrow> pyval" where
  "item_dict it = PDict [(''description'', PStr (description it)), (''amount'', PNum (amount it))]"

definition receipt_dict :: "receipt \<Rightarrow> pydict" where
  "receipt_dict r =
     [(''merchant'', opt_str (merchant r)),
      (''date'', opt_str (date r)),
      (''invoice_number'', opt_str (invoice_number r)),
      (''items'', PList (map item_dict (items r))),
      (''subtotal'', opt_num (subtotal r)),
      (''tax'', opt_num (tax r)),
      (''total'', opt_num (total_amt r)),
      (''parser_used'', PStr (parser_used r))]"

section \<open>ModelExtractor: \<open>llm_parser.parse_receipt\<close>\<close>

text \<open>
  The hosted model and the JSON decoder are outside the program: the environment gives
  the configured credential, the outcome of \<open>client.messages.create\<close> for a receipt text
  (the reply's text blocks and token counts, or the error raised), and \<open>json.loads\<close>.
\<close>

record message =
  content :: "string list"
  input_tokens :: nat
  output_tokens :: nat

record usage_stats =
  usage_input_tokens :: nat
  usage_output_tokens :: nat
  usage_total_tokens :: nat

record env =
  api_key :: "string option"
  create :: "string \<Rightarrow> py_error + message"
  json_loads :: "string \<Rightarrow> py_error + pyval"

definition fence :: string where
  "fence = ''```''"

definition fence_rx :: "rx list" where
  "fence_rx = lits fence @ [Opt ''json'', Star Space, One (Lit LF), Mark, LazyStar DotAll, Mark]
     @ lits (LF # fence)"

text \<open>Lines 52 to 56: the text that is handed to \<open>json.loads\<close>.\<close>

definition strip_code_fence :: "string \<Rightarrow> py_error + string" where
  "strip_code_fence response_text =
     (if startswith response_text fence then
        (case rx_search fence_rx response_text of
           None \<Rightarrow> Inr response_text
         | Some m \<Rightarrow> group1 m)
      else Inr response_text)"

definition dict_set :: "pydict \<Rightarrow> string \<Rightarrow> pyval \<Rightarrow> pydict" where
  "dict_set d k v = (if k \<in> fst ` set d then map (\<lambda>(k', w). if k' = k then (k', v) else (k', w)) d
     else d @ [(k, v)])"

text \<open>Lines 58 to 68: decoding the text, tagging the result, and the usage statistics.\<close>

definition decode_reply :: "env \<Rightarrow> message \<Rightarrow> string \<Rightarrow> py_error + pydict \<times> usage_stats" where
  "decode_reply e msg response_text =
     bind_err (json_loads e response_text) (\<lambda>result.
     case result of
       PDict d \<Rightarrow>
         Inr (dict_set d ''parser_used'' (PStr ''llm''),
              \<lparr>usage_input_tokens = input_tokens msg,
               usage_output_tokens = output_tokens msg,
               usage_total_tokens = input_tokens msg + output_tokens msg\<rparr>)
     | _ \<Rightarrow> Inl TypeError)"

definition llm_parse_receipt :: "env \<Rightarrow> string \<Rightarrow> py_error + pydict \<times> usage_stats" where
  "llm_parse_receipt e receipt_text =
     (case api_key e of
        None \<Rightarrow> Inl ValueError
      | Some k \<Rightarrow>
          if k = [] then Inl ValueError
          else
            bind_err (create e receipt_text) (\<lambda>msg.
            case content msg of
              [] \<Rightarrow> Inl IndexError
            | block # _ \<Rightarrow>
                bind_err (strip_code_fence (strip block)) (\<lambda>response_text.
                decode_reply e msg response_text)))"

section \<open>The pipeline: \<open>api.parse_receipt\<close> and \<open>api.compare_parsers\<close>\<close>

datatype parser_choice = Llm | Regex | Auto

record receipt_request =
  receipt_text :: string
  parser :: parser_choice

record receipt_response =
  success :: bool
  response_parser_used :: string
  data :: "pydict option"
  error :: "string option"
  usage :: "usage_stats option"

text \<open>An \<open>HTTPException\<close> with its status code, or an exception that no handler catches.\<close>

datatype http_error = HTTPException nat | Unhandled py_error

text \<open>Lines 61 to 83: the model first, the patterns when the model raised.\<close>

definition auto_mode :: "env \<Rightarrow> string \<Rightarrow> http_error + receipt_response" where
  "auto_mode e text =
     (case llm_parse_receipt e text of
        Inr (result, usg) \<Rightarrow>
          Inr \<lparr>success = True, response_parser_used = ''llm'', data = Some result,
               error = None, usage = Some usg\<rparr>
      | Inl llm_error \<Rightarrow>
          (case parse_receipt text of
             Inr result \<Rightarrow>
               Inr \<lparr>success = True, response_parser_used = ''regex_fallback'',
                    data = Some (receipt_dict result), error = None, usage = None\<rparr>
           | Inl regex_error \<Rightarrow> Inl (HTTPException 500)))"

definition llm_mode :: "env \<Rightarrow> string \<Rightarrow> http_error + receipt_response" where
  "llm_mode e text =
     (case llm_parse_receipt e text of
        Inr (result, usg) \<Rightarrow>
          Inr \<lparr>success = True, response_parser_used = ''llm'', data = Some result,
               error = None, usage = Some usg\<rparr>
      | Inl err \<Rightarrow> Inl (HTTPException 500))"

definition regex_mode :: "string \<Rightarrow> http_error + receipt_response" where
  "regex_mode text =
     (case parse_receipt text of
        Inr result \<Rightarrow>
          Inr \<lparr>success = True, response_parser_used = ''regex'',
               data = Some (receipt_dict result), error = None, usage = None\<rparr>
      | Inl err \<Rightarrow> Inl (HTTPException 500))"

definition api_parse_receipt :: "env \<Rightarrow> receipt_request \<Rightarrow> http_error + receipt_response" where
  "api_parse_receipt e request =
     (if strip (receipt_text request) = [] then Inl (HTTPException 400)
      else case parser request of
        Auto \<Rightarrow> auto_mode e (receipt_text request)
      | Llm \<Rightarrow> llm_mode e (receipt_text request)
      | Regex \<Rightarrow> regex_mode (receipt_text request))"

record comparison_report =
  merchant_match :: bool
  total_match :: bool
  items_count :: "nat \<times> nat"

text \<open>Lines 157 to 167: the comparison of the two dicts.\<close>

definition compare :: "pydict \<Rightarrow> pydict \<Rightarrow> py_error + comparison_report" where
  "compare llm_data regex_data =
     bind_err (py_len (dict_get_default llm_data ''items'' (PList []))) (\<lambda>n_llm.
     bind_err (py_len (dict_get_default regex_data ''items'' (PList []))) (\<lambda>n_regex.
     Inr \<lparr>merchant_match = py_eq (dict_get llm_data ''merchant'') (dict_get regex_data ''merchant''),
          total_match = py_eq (dict_get llm_data ''total'') (dict_get regex_data ''total''),
          items_count = (n_llm, n_regex)\<rparr>))"

text \<open>The \<open>results\<close> dict: an entry per strategy, each the data or the error, and the
  comparison when it was made.\<close>

record compare_results =
  llm_entry :: "py_error + pydict \<times> usage_stats"
  regex_entry :: "py_error + pydict"
  comparison :: "comparison_report option"

definition compare_parsers :: "env \<Rightarrow> receipt_request \<Rightarrow> http_error + compare_results" where
  "compare_parsers e request =
     (if strip (receipt_text request) = [] then Inl (HTTPException 400)
      else
        let llm_res = llm_parse_receipt e (receipt_text request);
            regex_res = map_sum id receipt_dict (parse_receipt (receipt_text request))
        in case (llm_res, regex_res) of
             (Inr (llm_data, usg), Inr regex_data) \<Rightarrow>
               (case compare llm_data regex_data of
                  Inl err \<Rightarrow> Inl (Unhandled err)
                | Inr c \<Rightarrow>
                    Inr \<lparr>llm_entry = llm_res, regex_entry = regex_res, comparison = Some c\<rparr>)
           | _ \<Rightarrow> Inr \<lparr>llm_entry = llm_res, regex_entry = regex_res, comparison = None\<rparr>)"

section \<open>Auxiliary notions for the proofs\<close>

text \<open>The number of group boundaries of a pattern.\<close>

fun marks :: "rx list \<Rightarrow> nat" where
  "marks [] = 0"
| "marks (Mark # rs) = Suc (marks rs)"
| "marks (_ # rs) = marks rs"

text \<open>A match of \<open>rs1 @ rs2\<close> ends with a match of \<open>rs2\<close>.\<close>

definition splits_at :: "rx list \<Rightarrow> rx list \<Rightarrow> string list \<Rightarrow> bool" where
  "splits_at rs1 rs2 m \<longleftrightarrow>
     (\<exists>u m1 m2. m = m1 @ m2 \<and> length m1 = marks rs1 \<and> rx_match rs2 u = Some m2)"

text \<open>The label \<open>w\<close>, standing after \<open>pre\<close> and followed by \<open>rest\<close>, is the first place
  in the text where \<open>w\<close> occurs.\<close>

definition first_label :: "string \<Rightarrow> string \<Rightarrow> string \<Rightarrow> bool" where
  "first_label w pre rest \<longleftrightarrow> (\<forall>i<length pre. \<not> prefix w (drop i (pre @ w @ rest)))"




text \<open>A direct scanner for \<open>(\d+\.\d+)\<close>, shown below to agree with the matcher.\<close>

definition money_tail :: "string \<Rightarrow> string list option" where
  "money_tail v =
     (case dropWhile isdigit v of
        [] \<Rightarrow> None
      | d # w \<Rightarrow>
          if d = CHR ''.'' \<and> takeWhile isdigit v \<noteq> [] \<and> takeWhile isdigit w \<noteq> []
          then Some [v, dropWhile isdigit w, dropWhile isdigit w] else None)"

section \<open>The receipt of Scenario A\<close>

definition scenario_a :: string where
  "scenario_a = ''ACME Office Supplies'' @ LF # ''Date: 2024-01-15'' @ LF #
     ''Invoice #: INV-2024-001'' @ LF # ''- Paper ... $45.00'' @ LF # ''Subtotal: $45.00'' @ LF #
     ''Tax: $3.60'' @ LF # ''TOTAL: $48.60''"


definition scenario_a_record :: receipt where
  "scenario_a_record =
     \<lparr>merchant = Some ''ACME Office Supplies'', date = Some ''2024-01-15'',
      invoice_number = Some ''INV-2024-001'',
      items = [\<lparr>description = ''Paper'', amount = 45.00\<rparr>],
      subtotal = Some 45.00, tax = Some 3.60, total_amt = Some 48.60,
      parser_used = ''regex''\<rparr>"


section \<open>Three environments\<close>

text \<open>A model call that fails in transport, a model that answers with a fenced JSON
  object, and a model that answers with a JSON object whose \<open>items\<close> is \<open>null\<close>.\<close>

definition failing_env :: env where
  "failing_env = \<lparr>api_key = Some ''key'', create = (\<lambda>_. Inl TransportError),
     json_loads = (\<lambda>_. Inl JSONDecodeError)\<rparr>"

definition fenced_body :: string where
  \<open>fenced_body = ''{"merchant": "ACME Office Supplies", "total": 48.60}''\<close>

definition fenced_env :: env where
  "fenced_env =
     \<lparr>api_key = Some ''key'',
      create = (\<lambda>_. Inr \<lparr>content = [fence @ ''json'' @ LF # fenced_body @ LF # fence],
                        input_tokens = 100, output_tokens = 20\<rparr>),
      json_loads = (\<lambda>s. if s = fenced_body
         then Inr (PDict [(''merchant'', PStr ''ACME Office Supplies''), (''total'', PNum 48.60)])
         else Inl JSONDecodeError)\<rparr>"

definition null_items_reply :: string where
  \<open>null_items_reply = ''{"merchant": "ACME Office Supplies", "items": null, "total": 48.60}''\<close>

definition null_items_env :: env where
  "null_items_env =
     \<lparr>api_key = Some ''key'',
      create = (\<lambda>_. Inr \<lparr>content = [null_items_reply], input_tokens = 100, output_tokens = 20\<rparr>),
      json_loads = (\<lambda>s. if s = null_items_reply
         then Inr (PDict [(''merchant'', PStr ''ACME Office Supplies''), (''items'', PNone),
                          (''total'', PNum 48.60)])
         else Inl JSONDecodeError)\<rparr>"

section \<open>Properties of the matcher\<close>


lemma isspace_LF: "isspace LF"
  by (simp add: isspace_def LF_def)

lemma not_isspace_not_LF: "\<not> isspace c \<Longrightarrow> c \<noteq> LF"
  using isspace_LF by auto

lemma lits_Nil: "lits [] = []"
  by (simp add: lits_def)

lemma lits_Cons: "lits (c # w) = One (Lit c) # lits w"
  by (simp add: lits_def)

lemma rx_match_lits:
  "rx_match (lits w @ rs) s = (if prefix w s then rx_match rs (drop (length w) s) else None)"
proof (induction w arbitrary: s)
  case Nil
  then show ?case by (simp add: lits_Nil)
next
  case (Cons c w)
  then show ?case by (cases s) (simp_all add: lits_Cons)
qed

lemma rx_match_star_skip:
  assumes "\<And>x xs. cmatch c x \<Longrightarrow> rx_match rs (x # xs) = None"
  shows "rx_match (Star c # rs) s = rx_match rs (dropWhile (cmatch c) s)"
  using assms by (induction s) (auto split: option.splits)

lemma rx_match_star_total:
  assumes "\<And>u. rx_match rs u \<noteq> None"
  shows "rx_match (Star c # rs) s = rx_match rs (dropWhile (cmatch c) s)"
proof (induction s)
  case Nil
  show ?case by simp
next
  case (Cons x xs)
  obtain m where "rx_match rs (dropWhile (cmatch c) xs) = Some m"
    using assms by (metis not_None_eq)
  with Cons show ?case by simp
qed

lemma rx_match_length: "rx_match rs s = Some m \<Longrightarrow> length m = Suc (marks rs)"
  by (induction rs s arbitrary: m rule: rx_match.induct)
     (auto split: option.splits if_splits)

lemma rx_search_sound: "rx_search rs s = Some m \<Longrightarrow> \<exists>u. rx_match rs u = Some m"
  by (induction rs s rule: rx_search.induct) (auto split: option.splits)

lemma splits_at_Nil: "rx_match rs2 s = Some m \<Longrightarrow> splits_at [] rs2 m"
  unfolding splits_at_def by (intro exI[of _ s] exI[of _ "[]"] exI[of _ m]) simp

lemma splits_at_Mark: "splits_at rs1 rs2 m \<Longrightarrow> splits_at (Mark # rs1) rs2 (s # m)"
  unfolding splits_at_def by (metis Cons_eq_appendI length_Cons marks.simps(2))

lemma splits_at_Cons: "r \<noteq> Mark \<Longrightarrow> splits_at rs1 rs2 m \<Longrightarrow> splits_at (r # rs1) rs2 m"
  unfolding splits_at_def by (cases r) auto

lemma splits_at_marks: "splits_at rs1 rs2 m \<Longrightarrow> marks rs1' = marks rs1 \<Longrightarrow> splits_at rs1' rs2 m"
  unfolding splits_at_def by auto

lemma rx_match_splits:
  "rs = rs1 @ rs2 \<Longrightarrow> rx_match rs s = Some m \<Longrightarrow> splits_at rs1 rs2 m"
proof (induction rs s arbitrary: rs1 m rule: rx_match.induct)
  case (1 s)
  then show ?case by (auto intro: splits_at_Nil)
next
  case (2 rs s)
  then show ?case
    by (cases rs1) (auto intro: splits_at_Nil splits_at_Mark)
next
  case (3 c rs)
  then show ?case by (cases rs1) (auto intro: splits_at_Nil)
next
  case (4 c rs x xs)
  then show ?case
    by (cases rs1) (auto intro: splits_at_Nil splits_at_Cons split: if_splits)
next
  case (5 c rs)
  then show ?case
    by (cases rs1) (auto intro: splits_at_Nil splits_at_Cons)
next
  case (6 c rs x xs)
  then show ?case
    by (cases rs1) (auto intro: splits_at_Nil splits_at_Cons split: if_splits option.splits)
next
  case (7 c rs)
  then show ?case by (cases rs1) (auto intro: splits_at_Nil)
next
  case (8 c rs x xs)
  show ?case
  proof (cases rs1)
    case Nil
    with "8.prems" show ?thesis by (auto intro: splits_at_Nil)
  next
    case (Cons r rs1')
    with "8.prems" have r: "r = Plus c" "rs = rs1' @ rs2" "cmatch c x"
      and m: "rx_match (Star c # rs1' @ rs2) xs = Some m"
      by (auto split: if_splits)
    have "splits_at (Star c # rs1') rs2 m"
      using "8.IH"[of "Star c # rs1'" m] r m by simp
    then show ?thesis
      using Cons r by (auto elim: splits_at_marks)
  qed
next
  case (9 c rs)
  then show ?case
    by (cases rs1) (auto intro: splits_at_Nil splits_at_Cons)
next
  case (10 c rs x xs)
  then show ?case
    by (cases rs1) (auto intro: splits_at_Nil splits_at_Cons split: if_splits option.splits)
next
  case (11 c rs)
  then show ?case by (cases rs1) (auto intro: splits_at_Nil)
next
  case (12 c rs x xs)
  show ?case
  proof (cases rs1)
    case Nil
    with "12.prems" show ?thesis by (auto intro: splits_at_Nil)
  next
    case (Cons r rs1')
    with "12.prems" have r: "r = LazyPlus c" "rs = rs1' @ rs2" "cmatch c x"
      and m: "rx_match (LazyStar c # rs1' @ rs2) xs = Some m"
      by (auto split: if_splits)
    have "splits_at (LazyStar c # rs1') rs2 m"
      using "12.IH"[of "LazyStar c # rs1'" m] r m by simp
    then show ?thesis
      using Cons r by (auto elim: splits_at_marks)
  qed
next
  case (13 w rs s)
  then show ?case
    by (cases rs1) (auto intro: splits_at_Nil splits_at_Cons split: if_splits option.splits)
qed


lemma cmatch_Space: "cmatch Space = isspace"
  by (rule ext) simp

lemma cmatch_Digit: "cmatch Digit = isdigit"
  by (rule ext) simp

lemma rx_match_plus_skip:
  assumes "\<And>x xs. cmatch c x \<Longrightarrow> rx_match rs (x # xs) = None"
  shows "rx_match (Plus c # rs) s =
    (if takeWhile (cmatch c) s = [] then None else rx_match rs (dropWhile (cmatch c) s))"
  using assms by (cases s) (simp_all add: rx_match_star_skip)

lemma rx_match_plus_total:
  assumes "\<And>u. rx_match rs u \<noteq> None"
  shows "rx_match (Plus c # rs) s =
    (if takeWhile (cmatch c) s = [] then None else rx_match rs (dropWhile (cmatch c) s))"
  using assms by (cases s) (simp_all add: rx_match_star_total)

lemma dollar_not_space: "\<not> isspace CHR ''$''"
  by (simp add: isspace_def)

lemma dot_not_digit: "\<not> isdigit CHR ''.''"
  by (simp add: isdigit_def)

lemma rx_match_number:
  "rx_match [Mark, Plus Digit, One (Lit CHR ''.''), Plus Digit, Mark] v = money_tail v"
proof -
  have last: "rx_match [Plus Digit, Mark] w =
      (if takeWhile isdigit w = [] then None
       else Some [dropWhile isdigit w, dropWhile isdigit w])" for w
    by (subst rx_match_plus_total) (simp_all add: cmatch_Digit)
  have dot: "rx_match [One (Lit CHR ''.''), Plus Digit, Mark] u =
      (case u of [] \<Rightarrow> None
       | d # w \<Rightarrow> if d = CHR ''.'' \<and> takeWhile isdigit w \<noteq> []
           then Some [dropWhile isdigit w, dropWhile isdigit w] else None)" for u
    by (cases u) (simp_all add: last)
  have plus: "rx_match [Plus Digit, One (Lit CHR ''.''), Plus Digit, Mark] v =
      (if takeWhile isdigit v = [] then None
       else rx_match [One (Lit CHR ''.''), Plus Digit, Mark] (dropWhile isdigit v))"
    by (subst rx_match_plus_skip) (auto simp: cmatch_Digit dot_not_digit)
  have step: "rx_match [Mark, Plus Digit, One (Lit CHR ''.''), Plus Digit, Mark] v =
      map_option (Cons v) (rx_match [Plus Digit, One (Lit CHR ''.''), Plus Digit, Mark] v)"
    by simp
  show ?thesis
  proof (cases "dropWhile isdigit v")
    case Nil
    show ?thesis unfolding step plus dot money_tail_def Nil by simp
  next
    case (Cons d w)
    show ?thesis unfolding step plus dot money_tail_def Cons by simp
  qed
qed

lemma rx_match_money:
  "rx_match money_rx u =
     (case dropWhile isspace u of
        [] \<Rightarrow> None
      | c # v \<Rightarrow> if c = CHR ''$'' then money_tail v else None)"
proof -
  have "rx_match money_rx u =
      rx_match [One (Lit CHR ''$''), Mark, Plus Digit, One (Lit CHR ''.''), Plus Digit, Mark]
        (dropWhile isspace u)"
    unfolding money_rx_def
    by (subst rx_match_star_skip) (auto simp: cmatch_Space dollar_not_space)
  moreover have "rx_match [One (Lit CHR ''$''), Mark, Plus Digit, One (Lit CHR ''.''), Plus Digit, Mark] z =
      (case z of [] \<Rightarrow> None | c # v \<Rightarrow> if c = CHR ''$'' then money_tail v else None)" for z
    by (cases z) (simp_all add: rx_match_number del: rx_match.simps(2))
  ultimately show ?thesis by simp
qed

lemma list_all_takeWhile: "list_all P (takeWhile P xs)"
  by (induction xs) auto

lemma money_tail_shape:
  assumes "money_tail v = Some m"
  shows "\<exists>a b e. m = [v, e, e] \<and> v = a @ CHR ''.'' # b @ e \<and> a \<noteq> [] \<and> b \<noteq> []
           \<and> list_all isdigit a \<and> list_all isdigit b"
proof -
  from assms obtain w where w: "dropWhile isdigit v = CHR ''.'' # w"
      and a: "takeWhile isdigit v \<noteq> []" and b: "takeWhile isdigit w \<noteq> []"
      and m: "m = [v, dropWhile isdigit w, dropWhile isdigit w]"
    by (auto simp: money_tail_def split: list.splits if_splits)
  have "v = takeWhile isdigit v @ CHR ''.'' # takeWhile isdigit w @ dropWhile isdigit w"
    using w by (metis takeWhile_dropWhile_id)
  with a b m show ?thesis
    using list_all_takeWhile[of isdigit] by blast
qed

lemma py_float_decimal:
  assumes "a \<noteq> []" "b \<noteq> []" "list_all isdigit a" "list_all isdigit b"
  shows "py_float (a @ CHR ''.'' # b) = Inr (decimal a b)"
proof -
  have t: "takeWhile isdigit (a @ CHR ''.'' # b) = a"
    using assms(3) dot_not_digit by (induction a) auto
  have d: "dropWhile isdigit (a @ CHR ''.'' # b) = CHR ''.'' # b"
    using assms(3) dot_not_digit by (induction a) auto
  show ?thesis
    using assms by (simp add: py_float_def t d)
qed

lemma between_append: "between (a @ e) e = a"
  by (simp add: between_def)



section \<open>Properties of the search and of the fields\<close>

lemma rx_search_match: "rx_match rs s = Some m \<Longrightarrow> rx_search rs s = Some m"
  by (cases s) simp_all

lemma rx_search_skip:
  "(\<And>i. i < length pre \<Longrightarrow> rx_match rs (drop i (pre @ u)) = None) \<Longrightarrow>
     rx_search rs (pre @ u) = rx_search rs u"
proof (induction pre)
  case Nil
  show ?case by simp
next
  case (Cons x pre)
  have "rx_match rs (x # pre @ u) = None"
    using Cons.prems[of 0] by simp
  moreover have "rx_search rs (pre @ u) = rx_search rs u"
  proof (rule Cons.IH)
    fix i assume "i < length pre"
    then show "rx_match rs (drop i (pre @ u)) = None"
      using Cons.prems[of "Suc i"] by simp
  qed
  ultimately show ?case by simp
qed

lemma rx_search_label:
  assumes "\<And>i. i < length pre \<Longrightarrow> \<not> prefix w (drop i (pre @ u))"
  shows "rx_search (lits w @ rs) (pre @ u) = rx_search (lits w @ rs) u"
proof (rule rx_search_skip)
  fix i assume "i < length pre"
  then have "\<not> prefix w (drop i (pre @ u))" by (rule assms)
  then show "rx_match (lits w @ rs) (drop i (pre @ u)) = None"
    by (simp only: rx_match_lits if_False)
qed

lemma rx_search_length: "rx_search rs s = Some m \<Longrightarrow> length m = Suc (marks rs)"
  using rx_search_sound rx_match_length by blast

lemma rx_search_splits: "rx_search (rs1 @ rs2) s = Some m \<Longrightarrow> splits_at rs1 rs2 m"
  using rx_search_sound rx_match_splits by blast

lemma marks_append: "marks (rs1 @ rs2) = marks rs1 + marks rs2"
  by (induction rs1 rule: marks.induct) simp_all

lemma marks_lits: "marks (lits w) = 0"
  by (induction w) (simp_all add: lits_Nil lits_Cons)

lemma marks_date_rx: "marks date_rx = 2"
  by (simp add: date_rx_def marks_append marks_lits)

lemma marks_invoice_rx: "marks invoice_rx = 2"
  by (simp add: invoice_rx_def marks_append marks_lits)

lemma group1_three: "length m = 3 \<Longrightarrow> \<exists>a b c. m = [a, b, c] \<and> group1 m = Inr (between a b)"
  by (cases m rule: group1.cases) (auto simp: length_Suc_conv)

lemma text_field_total:
  assumes "marks p = 2"
  shows "\<exists>v. text_field p t = Inr v"
proof (cases "rx_search p t")
  case None
  then show ?thesis by (simp add: text_field_def)
next
  case (Some m)
  then have "length m = 3"
    using rx_search_length assms by fastforce
  then obtain a b c where "group1 m = Inr (between a b)"
    using group1_three by blast
  with Some show ?thesis by (simp add: text_field_def)
qed

text \<open>What a match of a pattern that ends with the money pattern captures last.\<close>

lemma rx_match_money_shape:
  assumes "rx_match money_rx u = Some m"
  shows "\<exists>v a b e. m = [v, e, e] \<and> v = a @ CHR ''.'' # b @ e \<and> a \<noteq> [] \<and> b \<noteq> []
           \<and> list_all isdigit a \<and> list_all isdigit b"
proof -
  from assms obtain v where "money_tail v = Some m"
    by (auto simp: rx_match_money split: list.splits if_splits)
  from money_tail_shape[OF this] show ?thesis by blast
qed

lemma between_number: "between (a @ CHR ''.'' # b @ e) e = a @ CHR ''.'' # b"
  using between_append[of "a @ CHR ''.'' # b" e] by simp

lemma money_search_shape:
  assumes "rx_search (rs1 @ money_rx) t = Some m"
  shows "\<exists>m1 v a b e. m = m1 @ [v, e, e] \<and> length m1 = marks rs1 \<and> between v e = a @ CHR ''.'' # b
           \<and> a \<noteq> [] \<and> b \<noteq> [] \<and> list_all isdigit a \<and> list_all isdigit b"
proof -
  from rx_search_splits[OF assms] obtain u m1 m2 where
    m: "m = m1 @ m2" "length m1 = marks rs1" and "rx_match money_rx u = Some m2"
    unfolding splits_at_def by blast
  from rx_match_money_shape[OF this(3)] obtain v a b e where
    "m2 = [v, e, e]" "v = a @ CHR ''.'' # b @ e" "a \<noteq> []" "b \<noteq> []"
    "list_all isdigit a" "list_all isdigit b"
    by blast
  with m show ?thesis
    using between_number by blast
qed

lemma tax_rx_split: "tax_rx = (lits ''Tax'' @ [LazyStar Dot, One (Lit CHR '':'')]) @ money_rx"
  by (simp add: tax_rx_def)

lemma item_rx_split:
  "item_rx = ([One (Lit CHR ''-''), Star Space, Mark, LazyPlus Dot, Mark, Star Space] @ lits ''...'')
     @ money_rx"
  by (simp add: item_rx_def)

lemma marks_tax_prefix: "marks (lits ''Tax'' @ [LazyStar Dot, One (Lit CHR '':'')]) = 0"
  by (simp add: marks_append marks_lits)

lemma marks_item_prefix:
  "marks ([One (Lit CHR ''-''), Star Space, Mark, LazyPlus Dot, Mark, Star Space] @ lits ''...'') = 2"
  by (simp add: marks_append marks_lits)

lemma item_match_groups:
  assumes "rx_search item_rx l = Some m"
  shows "\<exists>d a b. group1 m = Inr d \<and> group2 m = Inr (a @ CHR ''.'' # b)
           \<and> a \<noteq> [] \<and> b \<noteq> [] \<and> list_all isdigit a \<and> list_all isdigit b"
proof -
  from money_search_shape[OF assms[unfolded item_rx_split]] obtain m1 v a b e where
    m: "m = m1 @ [v, e, e]" and l: "length m1 = 2" and g: "between v e = a @ CHR ''.'' # b"
    and ab: "a \<noteq> []" "b \<noteq> []" "list_all isdigit a" "list_all isdigit b"
    unfolding marks_item_prefix by blast
  from l obtain x y where "m1 = [x, y]"
    by (auto simp: length_Suc_conv numeral_2_eq_2)
  with m g ab show ?thesis by auto
qed

lemma find_items_total: "\<exists>its. find_items ls = Inr its \<and> list_all (\<lambda>it. \<exists>a b. amount it = decimal a b) its"
proof (induction ls)
  case Nil
  show ?case by simp
next
  case (Cons l ls)
  then obtain its where its: "find_items ls = Inr its"
    "list_all (\<lambda>it. \<exists>a b. amount it = decimal a b) its"
    by blast
  show ?case
  proof (cases "startswith (strip l) ''-'' \<and> rx_search item_rx l \<noteq> None")
    case False
    with its show ?thesis by auto
  next
    case True
    then obtain m where m: "rx_search item_rx l = Some m" by blast
    from item_match_groups[OF m] obtain d a b where
      "group1 m = Inr d" "group2 m = Inr (a @ CHR ''.'' # b)"
      "a \<noteq> []" "b \<noteq> []" "list_all isdigit a" "list_all isdigit b"
      by blast
    with True m its show ?thesis
      by (auto simp: py_float_decimal)
  qed
qed


section \<open>Scenario A, field by field\<close>

lemmas eval_text = LF_def isspace_def isdigit_def between_def strip_def rstrip_def startswith_def

lemmas eval_number = money_tail_def py_float_def decimal_def digits_val_def digit_val_def

lemma scenario_a_lines:
  "split_lines (strip scenario_a) =
     [''ACME Office Supplies'', ''Date: 2024-01-15'', ''Invoice #: INV-2024-001'',
      ''- Paper ... $45.00'', ''Subtotal: $45.00'', ''Tax: $3.60'', ''TOTAL: $48.60'']"
  by (simp add: scenario_a_def eval_text)

lemma scenario_a_merchant:
  "find_merchant (split_lines (strip scenario_a)) = Some ''ACME Office Supplies''"
  unfolding scenario_a_lines by (simp add: eval_text)

lemma scenario_a_date: "text_field date_rx scenario_a = Inr (Some ''2024-01-15'')"
  by (simp add: scenario_a_def text_field_def date_rx_def rx_match_lits eval_text)

lemma scenario_a_invoice: "text_field invoice_rx scenario_a = Inr (Some ''INV-2024-001'')"
  by (simp add: scenario_a_def text_field_def invoice_rx_def rx_match_lits eval_text)

lemma scenario_a_total: "money_field total_rx scenario_a = Inr (Some 48.60)"
  by (simp add: scenario_a_def money_field_def total_rx_def rx_match_lits rx_match_money
      eval_text eval_number)

lemma scenario_a_subtotal: "money_field subtotal_rx scenario_a = Inr (Some 45.00)"
  by (simp add: scenario_a_def money_field_def subtotal_rx_def rx_match_lits rx_match_money
      eval_text eval_number)

lemma scenario_a_tax: "money_field tax_rx scenario_a = Inr (Some 3.60)"
  by (simp add: scenario_a_def money_field_def tax_rx_def rx_match_lits rx_match_money
      eval_text eval_number)

lemma paper_item:
  "rx_search item_rx ''- Paper ... $45.00'' = Some [''Paper ... $45.00'', '' ... $45.00'', ''45.00'', [], []]"
  by (simp add: item_rx_def rx_match_lits rx_match_money eval_text eval_number)

lemma scenario_a_items:
  "find_items (split_lines (strip scenario_a)) = Inr [\<lparr>description = ''Paper'', amount = 45.00\<rparr>]"
  unfolding scenario_a_lines
  by (simp add: paper_item eval_text eval_number del: rx_search.simps)


lemma scenario_a_parse: "parse_receipt scenario_a = Inr scenario_a_record"
  by (simp add: parse_receipt_def bind_err_def Let_def scenario_a_record_def scenario_a_merchant
      scenario_a_date scenario_a_invoice scenario_a_total scenario_a_subtotal scenario_a_tax
      scenario_a_items del: rx_search.simps)

lemma scenario_a_not_blank: "strip scenario_a \<noteq> []"
  by (simp add: scenario_a_def eval_text)

lemma failing_env_fails: "llm_parse_receipt failing_env t = Inl TransportError"
  by (simp add: llm_parse_receipt_def failing_env_def bind_err_def)


section \<open>Where a match starts and what follows a label\<close>


lemma search_at_label:
  assumes "\<And>i. i < length pre \<Longrightarrow> \<not> prefix w (drop i (pre @ w @ rest))"
    and "rx_match rs rest = Some m"
  shows "rx_search (lits w @ rs) (pre @ w @ rest) = Some m"
proof -
  have "rx_search (lits w @ rs) (pre @ w @ rest) = rx_search (lits w @ rs) (w @ rest)"
    using assms(1) by (rule rx_search_label)
  moreover have "rx_match (lits w @ rs) (w @ rest) = Some m"
    using assms(2) by (simp add: rx_match_lits)
  ultimately show ?thesis by (simp add: rx_search_match)
qed










lemma cmatch_Dot: "cmatch Dot = (\<lambda>x. x \<noteq> LF)"
  by (rule ext) simp

lemma rx_match_line_end:
  "rx_match [Star Dot, Mark] u = Some [dropWhile (\<lambda>x. x \<noteq> LF) u, dropWhile (\<lambda>x. x \<noteq> LF) u]"
  by (subst rx_match_star_total) (simp_all add: cmatch_Dot)

lemma rx_match_text_value:
  assumes "list_all isspace ws" "\<not> isspace c"
  shows "rx_match [Star Space, Mark, Plus Dot, Mark] (ws @ c # u) =
           Some [c # u, dropWhile (\<lambda>x. x \<noteq> LF) u, dropWhile (\<lambda>x. x \<noteq> LF) u]"
  using assms
proof (induction ws)
  case Nil
  then show ?case
    using not_isspace_not_LF[of c] by (simp add: rx_match_line_end)
next
  case (Cons x ws)
  then show ?case by simp
qed

lemma rx_match_text_newlines:
  "set nl \<subseteq> {LF} \<Longrightarrow> rx_match [Star Space, Mark, Plus Dot, Mark] nl = None"
  by (induction nl) (auto simp: isspace_LF)

lemma between_line: "between (c # u) (dropWhile P u) = c # takeWhile P u"
proof -
  have "length u - length (dropWhile P u) = length (takeWhile P u)"
    by (metis add_diff_cancel_right' length_append takeWhile_dropWhile_id)
  moreover have "take (length (takeWhile P u)) u = takeWhile P u"
    by (metis append_eq_conv_conj takeWhile_dropWhile_id)
  moreover have "length (dropWhile P u) \<le> length u"
    by (simp add: length_dropWhile_le)
  ultimately show ?thesis
    by (simp add: between_def Suc_diff_le)
qed

lemma text_field_found:
  assumes "rx_search p t = Some [c # u, dropWhile (\<lambda>x. x \<noteq> LF) u, e]"
  shows "text_field p t = Inr (Some (strip (c # takeWhile (\<lambda>x. x \<noteq> LF) u)))"
  using assms by (simp add: text_field_def between_line)

lemma text_field_None_iff:
  assumes "marks p = 2"
  shows "\<exists>v. text_field p t = Inr v \<and> (v = None \<longleftrightarrow> rx_search p t = None)"
proof (cases "rx_search p t")
  case None
  then show ?thesis by (simp add: text_field_def)
next
  case (Some m)
  then have "length m = 3"
    using rx_search_length assms by fastforce
  then obtain a b c where "group1 m = Inr (between a b)"
    using group1_three by blast
  with Some show ?thesis by (simp add: text_field_def)
qed

lemma money_field_None_iff:
  assumes "marks rs1 = 0"
  shows "\<exists>v. money_field (rs1 @ money_rx) t = Inr v \<and> (v = None \<longleftrightarrow> rx_search (rs1 @ money_rx) t = None)
           \<and> (\<forall>x. v = Some x \<longrightarrow> (\<exists>a b. a \<noteq> [] \<and> b \<noteq> [] \<and> list_all isdigit a \<and> list_all isdigit b
                 \<and> x = decimal a b))"
proof (cases "rx_search (rs1 @ money_rx) t")
  case None
  then show ?thesis by (simp add: money_field_def)
next
  case (Some m)
  from money_search_shape[OF Some] assms obtain v a b e where
    m: "m = [v, e, e]" and g: "between v e = a @ CHR ''.'' # b"
    and ab: "a \<noteq> []" "b \<noteq> []" "list_all isdigit a" "list_all isdigit b"
    by auto
  have "money_field (rs1 @ money_rx) t = Inr (Some (decimal a b))"
    using Some m g py_float_decimal[OF ab] by (simp add: money_field_def)
  with ab Some show ?thesis by auto
qed

text \<open>The extractor returns a record for every text; each field is the result of its own
  search.\<close>

lemma parse_receipt_fields:
  "\<exists>r. parse_receipt t = Inr r
     \<and> merchant r = find_merchant (split_lines (strip t))
     \<and> text_field date_rx t = Inr (date r)
     \<and> text_field invoice_rx t = Inr (invoice_number r)
     \<and> money_field total_rx t = Inr (total_amt r)
     \<and> money_field subtotal_rx t = Inr (subtotal r)
     \<and> money_field tax_rx t = Inr (tax r)
     \<and> find_items (split_lines (strip t)) = Inr (items r)
     \<and> parser_used r = ''regex''"
proof -
  obtain d where d: "text_field date_rx t = Inr d"
    using text_field_total[OF marks_date_rx] by blast
  obtain inv where inv: "text_field invoice_rx t = Inr inv"
    using text_field_total[OF marks_invoice_rx] by blast
  obtain tot where tot: "money_field total_rx t = Inr tot"
    using money_field_None_iff[OF marks_lits, of "''TOTAL:''" t] by (auto simp: total_rx_def)
  obtain sub where sub: "money_field subtotal_rx t = Inr sub"
    using money_field_None_iff[OF marks_lits, of "''Subtotal:''" t] by (auto simp: subtotal_rx_def)
  obtain tx where tx: "money_field tax_rx t = Inr tx"
    using money_field_None_iff[OF marks_tax_prefix, of t] by (auto simp: tax_rx_split)
  obtain its where its: "find_items (split_lines (strip t)) = Inr its"
    using find_items_total by blast
  show ?thesis
    by (simp add: parse_receipt_def Let_def bind_err_def d inv tot sub tx its)
qed


lemma text_field_absent:
  assumes "marks p = 2" "text_field p t = Inr v"
  shows "v = None \<longleftrightarrow> rx_search p t = None"
proof -
  obtain v' where "text_field p t = Inr v'" "v' = None \<longleftrightarrow> rx_search p t = None"
    using text_field_None_iff[OF assms(1)] by blast
  with assms(2) show ?thesis by simp
qed

lemma money_field_absent:
  assumes "marks rs1 = 0" "money_field (rs1 @ money_rx) t = Inr v"
  shows "v = None \<longleftrightarrow> rx_search (rs1 @ money_rx) t = None"
proof -
  obtain v' where "money_field (rs1 @ money_rx) t = Inr v'"
      "v' = None \<longleftrightarrow> rx_search (rs1 @ money_rx) t = None"
    using money_field_None_iff[OF assms(1)] by blast
  with assms(2) show ?thesis by simp
qed


lemma parse_receipt_empty:
  "parse_receipt [] =
       Inr \<lparr>merchant = None, date = None, invoice_number = None, items = [],
            subtotal = None, tax = None, total_amt = None, parser_used = ''regex''\<rparr>"
  by (simp add: parse_receipt_def bind_err_def text_field_def money_field_def date_rx_def
        invoice_rx_def total_rx_def subtotal_rx_def tax_rx_def rx_match_lits eval_text)


section \<open>Labelled fields\<close>

lemma first_label_Nil: "first_label w [] rest"
  by (simp add: first_label_def)

lemma first_label_Cons:
  "first_label w (x # pre) rest \<longleftrightarrow> \<not> prefix w (x # pre @ w @ rest) \<and> first_label w pre rest"
proof -
  have "(\<forall>i<Suc (length pre). \<not> prefix w (drop i (x # pre @ w @ rest))) \<longleftrightarrow>
      \<not> prefix w (drop 0 (x # pre @ w @ rest)) \<and>
      (\<forall>i<length pre. \<not> prefix w (drop (Suc i) (x # pre @ w @ rest)))"
    by (rule All_less_Suc2)
  then show ?thesis by (simp add: first_label_def)
qed

lemma search_at_first_label:
  assumes "first_label w pre rest" and "rx_match rs rest = Some m"
  shows "rx_search (lits w @ rs) (pre @ w @ rest) = Some m"
  using assms(1) by (intro search_at_label assms(2)) (simp add: first_label_def)







lemma text_label_first:
  assumes "first_label w pre (ws @ c # u)" "list_all isspace ws" "\<not> isspace c"
  shows "text_field (lits w @ [Star Space, Mark, Plus Dot, Mark]) (pre @ w @ ws @ c # u) =
           Inr (Some (strip (c # takeWhile (\<lambda>x. x \<noteq> LF) u)))"
proof -
  have "rx_search (lits w @ [Star Space, Mark, Plus Dot, Mark]) (pre @ w @ ws @ c # u) =
      Some [c # u, dropWhile (\<lambda>x. x \<noteq> LF) u, dropWhile (\<lambda>x. x \<noteq> LF) u]"
    using assms(1) rx_match_text_value[OF assms(2,3)] by (rule search_at_first_label)
  then show ?thesis by (rule text_field_found)
qed

lemma rx_search_newlines:
  "set nl \<subseteq> {LF} \<Longrightarrow> rx_search (lits ''Date:'' @ rs) nl = None"
  by (induction nl) (auto simp: rx_match_lits LF_def)

lemma date_label_newlines:
  assumes "first_label ''Date:'' pre nl" "set nl \<subseteq> {LF}"
  shows "text_field date_rx (pre @ ''Date:'' @ nl) = Inr None"
proof -
  have "rx_search date_rx (pre @ ''Date:'' @ nl) = rx_search date_rx (''Date:'' @ nl)"
    unfolding date_rx_def using assms(1) by (intro rx_search_label) (simp add: first_label_def)
  also have "\<dots> = None"
    using rx_search_newlines[OF assms(2)] rx_match_text_newlines[OF assms(2)]
    by (simp add: date_rx_def rx_match_lits)
  finally show ?thesis by (simp add: text_field_def)
qed


lemma parse_receipt_field_of:
  assumes "parse_receipt t = Inr r"
  shows "text_field date_rx t = Inr (date r)" "text_field invoice_rx t = Inr (invoice_number r)"
    "money_field total_rx t = Inr (total_amt r)" "money_field subtotal_rx t = Inr (subtotal r)"
    "money_field tax_rx t = Inr (tax r)" "find_items (split_lines (strip t)) = Inr (items r)"
  using parse_receipt_fields[of t] assms by auto









section \<open>The code fence\<close>

lemma star_space_then_LF:
  assumes "list_all isspace ws" "\<not> isspace c" "rx_match rs (c # u) = Some m"
  shows "rx_match (Star Space # One (Lit LF) # rs) (ws @ LF # c # u) = Some m"
  using assms
proof (induction ws)
  case Nil
  then show ?case
    using not_isspace_not_LF[of c] by (simp add: isspace_LF)
next
  case (Cons x ws)
  then show ?case by simp
qed

lemma lazy_all_until:
  assumes "first_label w body rest" "w \<noteq> []"
  shows "rx_match (LazyStar DotAll # Mark # lits w) (body @ w @ rest) = Some [w @ rest, rest]"
  using assms(1)
proof (induction body)
  case Nil
  have "rx_match (lits w @ []) (w @ rest) = Some [rest]"
    by (simp only: rx_match_lits) simp
  then have "rx_match (Mark # lits w) (w @ rest) = Some [w @ rest, rest]"
    by simp
  then show ?case
    using assms(2) by (cases "w @ rest") (simp_all del: rx_match.simps(2))
next
  case (Cons x body)
  then have n: "\<not> prefix w (x # body @ w @ rest)" and f: "first_label w body rest"
    by (simp_all add: first_label_Cons)
  have "rx_match (lits w @ []) (x # body @ w @ rest) = None"
    using n by (simp only: rx_match_lits if_False)
  then have "rx_match (Mark # lits w) (x # body @ w @ rest) = None"
    by simp
  with Cons.IH[OF f] show ?case
    by (simp del: rx_match.simps(2))
qed

lemma not_startswith_json:
  assumes "list_all isspace ws"
  shows "\<not> startswith (ws @ LF # u) ''json''"
proof (cases ws)
  case Nil
  then show ?thesis by (simp add: startswith_def LF_def)
next
  case (Cons x xs)
  with assms have "isspace x" by simp
  then have "x \<noteq> CHR ''j''" by (auto simp: isspace_def)
  with Cons show ?thesis by (simp add: startswith_def)
qed

lemma fence_match:
  assumes "tag = ''json'' \<or> tag = []" "list_all isspace ws" "\<not> isspace c"
    and "first_label (LF # fence) (c # body) rest"
  shows "rx_search fence_rx (fence @ tag @ ws @ LF # (c # body) @ (LF # fence) @ rest) =
           Some [(c # body) @ (LF # fence) @ rest, (LF # fence) @ rest, rest]"
proof -
  let ?m = "[(c # body) @ (LF # fence) @ rest, (LF # fence) @ rest, rest]"
  let ?tail = "Mark # LazyStar DotAll # Mark # lits (LF # fence)"
  have "rx_match (LazyStar DotAll # Mark # lits (LF # fence)) ((c # body) @ (LF # fence) @ rest) =
      Some [(LF # fence) @ rest, rest]"
    using assms(4) by (rule lazy_all_until) simp
  then have "rx_match ?tail (c # body @ (LF # fence) @ rest) = Some ?m"
    by simp
  then have sp: "rx_match (Star Space # One (Lit LF) # ?tail) (ws @ LF # c # body @ (LF # fence) @ rest) = Some ?m"
    using assms(2,3) by (intro star_space_then_LF)
  have "rx_match (Opt ''json'' # Star Space # One (Lit LF) # ?tail)
      (tag @ ws @ LF # c # body @ (LF # fence) @ rest) = Some ?m"
  proof (cases "tag = []")
    case True
    then show ?thesis
      using sp not_startswith_json[OF assms(2)] by simp
  next
    case False
    with assms(1) have "tag = ''json''" by simp
    then show ?thesis
      using sp by (simp add: startswith_def)
  qed
  then have "rx_match fence_rx (fence @ tag @ ws @ LF # (c # body) @ (LF # fence) @ rest) = Some ?m"
    by (simp add: fence_rx_def rx_match_lits)
  then show ?thesis by (rule rx_search_match)
qed

section \<open>The claims\<close>

text \<open>
  C1. In auto mode, when the model extractor fails on a text and the pattern extractor
  returns a record for it, the pipeline answers with success, the tag
  \<open>regex_fallback\<close>, the pattern extractor's record as data, and no usage statistics.
  The endpoint gives the same answer for every text that is not blank.
\<close>

theorem auto_mode_falls_back_to_pattern:
  assumes "llm_parse_receipt e t = Inl err" and "parse_receipt t = Inr r"
  shows "auto_mode e t =
           Inr \<lparr>success = True, response_parser_used = ''regex_fallback'',
                data = Some (receipt_dict r), error = None, usage = None\<rparr>
         \<and> (strip t \<noteq> [] \<longrightarrow>
              api_parse_receipt e \<lparr>receipt_text = t, parser = Auto\<rparr> = auto_mode e t)"
  using assms by (simp add: auto_mode_def api_parse_receipt_def)

theorem auto_mode_falls_back_to_pattern_witness:
  "auto_mode failing_env scenario_a =
     Inr \<lparr>success = True, response_parser_used = ''regex_fallback'',
          data = Some (receipt_dict scenario_a_record), error = None, usage = None\<rparr>
   \<and> api_parse_receipt failing_env \<lparr>receipt_text = scenario_a, parser = Auto\<rparr> =
     Inr \<lparr>success = True, response_parser_used = ''regex_fallback'',
          data = Some (receipt_dict scenario_a_record), error = None, usage = None\<rparr>"
  using auto_mode_falls_back_to_pattern[OF failing_env_fails scenario_a_parse] scenario_a_not_blank
  by simp




text \<open>
  C3. A reply that begins with the fence marker, then the language tag \<open>json\<close> or no
  tag, optional whitespace and a line break, then a body that starts with a character
  that is not whitespace and runs to the first line break followed by a fence marker:
  the text handed to the JSON decoder is that body (the match is not greedy: it ends at
  the first closing fence). A reply that does not begin with the fence marker is handed
  on as it is. In both cases the reply has been stripped first.
\<close>

theorem fenced_reply_unwrapped:
  "((tag = ''json'' \<or> tag = []) \<and> list_all isspace ws \<and> \<not> isspace c
      \<and> first_label (LF # fence) (c # body) rest
    \<longrightarrow> strip_code_fence (fence @ tag @ ws @ LF # (c # body) @ (LF # fence) @ rest) = Inr (c # body))
   \<and> (\<not> startswith response_text fence \<longrightarrow> strip_code_fence response_text = Inr response_text)
   \<and> (api_key e = Some k \<and> k \<noteq> [] \<and> create e t = Inr msg \<and> content msg = block # blocks
      \<longrightarrow> llm_parse_receipt e t =
            bind_err (strip_code_fence (strip block)) (decode_reply e msg))"
proof (intro conjI impI)
  assume h: "(tag = ''json'' \<or> tag = []) \<and> list_all isspace ws \<and> \<not> isspace c
      \<and> first_label (LF # fence) (c # body) rest"
  let ?s = "fence @ tag @ ws @ LF # (c # body) @ (LF # fence) @ rest"
  have "rx_search fence_rx ?s = Some [(c # body) @ (LF # fence) @ rest, (LF # fence) @ rest, rest]"
    using h by (intro fence_match) simp_all
  moreover have "startswith ?s fence"
    by (simp add: startswith_def)
  moreover have "between ((c # body) @ (LF # fence) @ rest) ((LF # fence) @ rest) = c # body"
    by (rule between_append)
  ultimately show "strip_code_fence ?s = Inr (c # body)"
    by (simp add: strip_code_fence_def)
next
  assume "\<not> startswith response_text fence"
  then show "strip_code_fence response_text = Inr response_text"
    by (simp add: strip_code_fence_def)
next
  assume "api_key e = Some k \<and> k \<noteq> [] \<and> create e t = Inr msg \<and> content msg = block # blocks"
  then show "llm_parse_receipt e t = bind_err (strip_code_fence (strip block)) (decode_reply e msg)"
    by (simp add: llm_parse_receipt_def bind_err_def)
qed

theorem fenced_reply_unwrapped_witness:
  "strip_code_fence (fence @ ''json'' @ LF # fenced_body @ LF # fence) = Inr fenced_body
   \<and> strip_code_fence fenced_body = Inr fenced_body
   \<and> llm_parse_receipt fenced_env scenario_a =
       Inr ([(''merchant'', PStr ''ACME Office Supplies''), (''total'', PNum 48.60),
             (''parser_used'', PStr ''llm'')],
            \<lparr>usage_input_tokens = 100, usage_output_tokens = 20, usage_total_tokens = 120\<rparr>)"
proof -
  obtain body where body: "fenced_body = CHR ''{'' # body" and
    fl: "first_label (LF # fence) (CHR ''{'' # body) []"
    by (simp add: fenced_body_def first_label_Cons first_label_Nil fence_def LF_def)
  note inst = fenced_reply_unwrapped[where tag = "''json''" and ws = "[]" and c = "CHR ''{''"
      and body = body and rest = "[]" and response_text = fenced_body and e = fenced_env
      and k = "''key''" and t = scenario_a
      and msg = "\<lparr>content = [fence @ ''json'' @ LF # fenced_body @ LF # fence],
                   input_tokens = 100, output_tokens = 20\<rparr>"
      and block = "fence @ ''json'' @ LF # fenced_body @ LF # fence" and blocks = "[]"]
  have "\<not> isspace CHR ''{''"
    by (simp add: isspace_def)
  with inst fl have 1: "strip_code_fence (fence @ ''json'' @ LF # fenced_body @ LF # fence) = Inr fenced_body"
    by (simp add: body)
  have "\<not> startswith fenced_body fence"
    by (simp add: fenced_body_def fence_def startswith_def)
  with inst have 2: "strip_code_fence fenced_body = Inr fenced_body"
    by blast
  have s: "strip (fence @ ''json'' @ LF # fenced_body @ LF # fence) =
      fence @ ''json'' @ LF # fenced_body @ LF # fence"
    by (simp add: fenced_body_def fence_def eval_text)
  have "api_key fenced_env = Some ''key'' \<and> ''key'' \<noteq> []
      \<and> create fenced_env scenario_a =
          Inr \<lparr>content = [fence @ ''json'' @ LF # fenced_body @ LF # fence],
               input_tokens = 100, output_tokens = 20\<rparr>
      \<and> content \<lparr>content = [fence @ ''json'' @ LF # fenced_body @ LF # fence],
               input_tokens = 100, output_tokens = 20\<rparr> =
          (fence @ ''json'' @ LF # fenced_body @ LF # fence) # []"
    by (simp add: fenced_env_def)
  with inst have "llm_parse_receipt fenced_env scenario_a =
      bind_err (strip_code_fence (strip (fence @ ''json'' @ LF # fenced_body @ LF # fence)))
        (decode_reply fenced_env \<lparr>content = [fence @ ''json'' @ LF # fenced_body @ LF # fence],
                   input_tokens = 100, output_tokens = 20\<rparr>)"
    by blast
  then have "llm_parse_receipt fenced_env scenario_a =
      decode_reply fenced_env \<lparr>content = [fence @ ''json'' @ LF # fenced_body @ LF # fence],
                   input_tokens = 100, output_tokens = 20\<rparr> fenced_body"
    by (simp only: s 1 bind_err_def sum.case)
  also have "\<dots> =
       Inr ([(''merchant'', PStr ''ACME Office Supplies''), (''total'', PNum 48.60),
             (''parser_used'', PStr ''llm'')],
            \<lparr>usage_input_tokens = 100, usage_output_tokens = 20, usage_total_tokens = 120\<rparr>)"
    by (simp add: bind_err_def decode_reply_def fenced_env_def dict_set_def)
  finally have 3: "llm_parse_receipt fenced_env scenario_a =
       Inr ([(''merchant'', PStr ''ACME Office Supplies''), (''total'', PNum 48.60),
             (''parser_used'', PStr ''llm'')],
            \<lparr>usage_input_tokens = 100, usage_output_tokens = 20, usage_total_tokens = 120\<rparr>)" .
  from 1 2 3 show ?thesis by simp
qed

text \<open>
  The claim as it was stated fails for a language tag other than \<open>json\<close>: the pattern
  names that tag only, so a block opened with the tag \<open>JSON\<close> is not unwrapped and the
  whole reply, fences included, goes to the JSON decoder.
\<close>

theorem other_tag_counterexample:
  "strip_code_fence (fence @ ''JSON'' @ LF # ''{}'' @ LF # fence) =
     Inr (fence @ ''JSON'' @ LF # ''{}'' @ LF # fence)"
  by (simp add: strip_code_fence_def fence_rx_def fence_def rx_match_lits eval_text)

text \<open>
  C4. For every text the pattern extractor returns a record and raises nothing. Each
  field depends on its own search only: a labelled field is absent exactly when its own
  pattern has no match in the text, whatever the other fields find, and the merchant is
  the first non-blank line. On the empty text every field is absent and there are no
  items.
\<close>

theorem parse_receipt_never_raises:
  "(\<exists>r. parse_receipt t = Inr r
      \<and> merchant r = find_merchant (split_lines (strip t))
      \<and> (date r = None \<longleftrightarrow> rx_search date_rx t = None)
      \<and> (invoice_number r = None \<longleftrightarrow> rx_search invoice_rx t = None)
      \<and> (total_amt r = None \<longleftrightarrow> rx_search total_rx t = None)
      \<and> (subtotal r = None \<longleftrightarrow> rx_search subtotal_rx t = None)
      \<and> (tax r = None \<longleftrightarrow> rx_search tax_rx t = None))
   \<and> parse_receipt [] =
       Inr \<lparr>merchant = None, date = None, invoice_number = None, items = [],
            subtotal = None, tax = None, total_amt = None, parser_used = ''regex''\<rparr>"
proof
  obtain r where r: "parse_receipt t = Inr r"
      "merchant r = find_merchant (split_lines (strip t))"
      "text_field date_rx t = Inr (date r)"
      "text_field invoice_rx t = Inr (invoice_number r)"
      "money_field total_rx t = Inr (total_amt r)"
      "money_field subtotal_rx t = Inr (subtotal r)"
      "money_field tax_rx t = Inr (tax r)"
    using parse_receipt_fields[of t] by blast
  have h1: "date r = None \<longleftrightarrow> rx_search date_rx t = None"
    using text_field_absent[OF marks_date_rx r(3)] .
  have h2: "invoice_number r = None \<longleftrightarrow> rx_search invoice_rx t = None"
    using text_field_absent[OF marks_invoice_rx r(4)] .
  have h3: "total_amt r = None \<longleftrightarrow> rx_search total_rx t = None"
    using money_field_absent[OF marks_lits r(5)[unfolded total_rx_def]]
    by (simp only: total_rx_def)
  have h4: "subtotal r = None \<longleftrightarrow> rx_search subtotal_rx t = None"
    using money_field_absent[OF marks_lits r(6)[unfolded subtotal_rx_def]]
    by (simp only: subtotal_rx_def)
  have h5: "tax r = None \<longleftrightarrow> rx_search tax_rx t = None"
    using money_field_absent[OF marks_tax_prefix r(7)[unfolded tax_rx_split]]
    by (simp only: tax_rx_split)
  show "\<exists>r. parse_receipt t = Inr r
      \<and> merchant r = find_merchant (split_lines (strip t))
      \<and> (date r = None \<longleftrightarrow> rx_search date_rx t = None)
      \<and> (invoice_number r = None \<longleftrightarrow> rx_search invoice_rx t = None)
      \<and> (total_amt r = None \<longleftrightarrow> rx_search total_rx t = None)
      \<and> (subtotal r = None \<longleftrightarrow> rx_search subtotal_rx t = None)
      \<and> (tax r = None \<longleftrightarrow> rx_search tax_rx t = None)"
    by (intro exI[of _ r] conjI r(1) r(2) h1 h2 h3 h4 h5)
next
  show "parse_receipt [] =
       Inr \<lparr>merchant = None, date = None, invoice_number = None, items = [],
            subtotal = None, tax = None, total_amt = None, parser_used = ''regex''\<rparr>"
    by (rule parse_receipt_empty)
qed



text \<open>
  C6. On the receipt of Scenario A the pattern extractor returns the merchant
  \<open>ACME Office Supplies\<close>, the invoice number \<open>INV-2024-001\<close>, the single item
  \<open>Paper\<close> at 45.00, the subtotal 45.00, the tax 3.60 and the total 48.60 (and the date
  \<open>2024-01-15\<close>).
\<close>

theorem scenario_a_extracted:
  "parse_receipt scenario_a =
     Inr \<lparr>merchant = Some ''ACME Office Supplies'', date = Some ''2024-01-15'',
          invoice_number = Some ''INV-2024-001'',
          items = [\<lparr>description = ''Paper'', amount = 45.00\<rparr>],
          subtotal = Some 45.00, tax = Some 3.60, total_amt = Some 48.60,
          parser_used = ''regex''\<rparr>"
  using scenario_a_parse by (simp add: scenario_a_record_def)

text \<open>
  C7. The model answers the Scenario A receipt with a JSON object whose \<open>items\<close> is
  \<open>null\<close>. Both strategies succeed, and \<open>compare_parsers\<close> returns no results at
  all: \<open>len\<close> of the model's \<open>items\<close> raises a TypeError that nothing catches.
\<close>

theorem compare_parsers_null_items:
  "llm_parse_receipt null_items_env scenario_a =
     Inr ([(''merchant'', PStr ''ACME Office Supplies''), (''items'', PNone),
           (''total'', PNum 48.60), (''parser_used'', PStr ''llm'')],
          \<lparr>usage_input_tokens = 100, usage_output_tokens = 20, usage_total_tokens = 120\<rparr>)
   \<and> parse_receipt scenario_a = Inr scenario_a_record
   \<and> compare_parsers null_items_env \<lparr>receipt_text = scenario_a, parser = Auto\<rparr> =
       Inl (Unhandled TypeError)"
proof -
  have reply: "strip_code_fence (strip null_items_reply) = Inr null_items_reply"
    by (simp add: null_items_reply_def strip_code_fence_def fence_def eval_text)
  have llm: "llm_parse_receipt null_items_env scenario_a =
     Inr ([(''merchant'', PStr ''ACME Office Supplies''), (''items'', PNone),
           (''total'', PNum 48.60), (''parser_used'', PStr ''llm'')],
          \<lparr>usage_input_tokens = 100, usage_output_tokens = 20, usage_total_tokens = 120\<rparr>)"
    by (simp add: llm_parse_receipt_def decode_reply_def null_items_env_def bind_err_def reply
        dict_set_def)
  have "compare_parsers null_items_env \<lparr>receipt_text = scenario_a, parser = Auto\<rparr> =
       Inl (Unhandled TypeError)"
    using scenario_a_not_blank
    by (simp add: compare_parsers_def llm scenario_a_parse compare_def dict_get_default_def
        bind_err_def)
  with llm scenario_a_parse show ?thesis by simp
qed

text \<open>
  C8. Comparing a receipt record with itself reports that the merchants match, that the
  totals match, and the same item count on both sides.
\<close>

theorem compare_reflexive:
  "compare (receipt_dict a) (receipt_dict a) =
     Inr \<lparr>merchant_match = True, total_match = True,
          items_count = (length (items a), length (items a))\<rparr>"
  by (simp add: compare_def receipt_dict_def dict_get_def dict_get_default_def bind_err_def
      opt_str_def opt_num_def split: option.splits)

text \<open>
  C9. When the first \<open>Date:\<close> label is followed by whitespace (with or without line
  breaks in it) and then by a character that is not whitespace, the date is the rest of
  that character's line, stripped: the value may stand on a later line than the label.
  When the label is followed by nothing but line breaks up to the end of the text, the
  date is absent.
\<close>

theorem date_after_first_label:
  "(first_label ''Date:'' pre (ws @ c # u) \<and> list_all isspace ws \<and> \<not> isspace c
      \<longrightarrow> (\<exists>r. parse_receipt (pre @ ''Date:'' @ ws @ c # u) = Inr r
             \<and> date r = Some (strip (c # takeWhile (\<lambda>x. x \<noteq> LF) u))))
   \<and> (first_label ''Date:'' pre nl \<and> set nl \<subseteq> {LF}
      \<longrightarrow> (\<exists>r. parse_receipt (pre @ ''Date:'' @ nl) = Inr r \<and> date r = None))"
proof (intro conjI impI)
  assume h: "first_label ''Date:'' pre (ws @ c # u) \<and> list_all isspace ws \<and> \<not> isspace c"
  let ?t = "pre @ ''Date:'' @ ws @ c # u"
  have f: "text_field date_rx ?t = Inr (Some (strip (c # takeWhile (\<lambda>x. x \<noteq> LF) u)))"
    unfolding date_rx_def using h by (intro text_label_first) simp_all
  obtain r where r: "parse_receipt ?t = Inr r"
    using parse_receipt_fields[of ?t] by blast
  from parse_receipt_field_of(1)[OF r] f
  have "parse_receipt ?t = Inr r \<and> date r = Some (strip (c # takeWhile (\<lambda>x. x \<noteq> LF) u))"
    using r by simp
  then show "\<exists>r. parse_receipt ?t = Inr r
      \<and> date r = Some (strip (c # takeWhile (\<lambda>x. x \<noteq> LF) u))" ..
next
  assume h: "first_label ''Date:'' pre nl \<and> set nl \<subseteq> {LF}"
  let ?t = "pre @ ''Date:'' @ nl"
  have f: "text_field date_rx ?t = Inr None"
    using h by (intro date_label_newlines) simp_all
  obtain r where r: "parse_receipt ?t = Inr r"
    using parse_receipt_fields[of ?t] by blast
  from parse_receipt_field_of(1)[OF r] f have "parse_receipt ?t = Inr r \<and> date r = None"
    using r by simp
  then show "\<exists>r. parse_receipt ?t = Inr r \<and> date r = None" ..
qed

theorem date_after_first_label_witness:
  "(\<exists>r. parse_receipt (''Shop'' @ LF # ''Date:'' @ LF # LF # ''15 Jan 2024 '' @ LF # ''TOTAL: $1.00'') = Inr r
       \<and> date r = Some ''15 Jan 2024'')
   \<and> (\<exists>r. parse_receipt (''Shop'' @ LF # ''Date:'' @ [LF, LF]) = Inr r \<and> date r = None)"
proof -
  have fl: "first_label ''Date:'' (''Shop'' @ [LF]) rest" for rest
    by (simp add: first_label_Cons first_label_Nil LF_def)
  have sp: "list_all isspace [LF, LF]" "\<not> isspace CHR ''1''"
    by (simp_all add: isspace_def LF_def)
  have v: "strip (CHR ''1'' # takeWhile (\<lambda>x. x \<noteq> LF) (''5 Jan 2024 '' @ LF # ''TOTAL: $1.00'')) = ''15 Jan 2024''"
    by (simp add: eval_text)
  note inst = date_after_first_label[where pre = "''Shop'' @ [LF]" and ws = "[LF, LF]" and c = "CHR ''1''"
      and u = "''5 Jan 2024 '' @ LF # ''TOTAL: $1.00''" and nl = "[LF, LF]"]
  from inst fl sp have "\<exists>r. parse_receipt ((''Shop'' @ [LF]) @ ''Date:'' @ [LF, LF] @ CHR ''1'' # ''5 Jan 2024 '' @ LF # ''TOTAL: $1.00'') = Inr r
      \<and> date r = Some (strip (CHR ''1'' # takeWhile (\<lambda>x. x \<noteq> LF) (''5 Jan 2024 '' @ LF # ''TOTAL: $1.00'')))"
    by blast
  then have 1: "\<exists>r. parse_receipt (''Shop'' @ LF # ''Date:'' @ LF # LF # ''15 Jan 2024 '' @ LF # ''TOTAL: $1.00'') = Inr r
       \<and> date r = Some ''15 Jan 2024''"
    unfolding v by simp
  from inst fl have "\<exists>r. parse_receipt ((''Shop'' @ [LF]) @ ''Date:'' @ [LF, LF]) = Inr r \<and> date r = None"
    by simp
  then have 2: "\<exists>r. parse_receipt (''Shop'' @ LF # ''Date:'' @ [LF, LF]) = Inr r \<and> date r = None"
    by simp
  from 1 2 show ?thesis ..
qed

text \<open>
  The claim as it was stated fails where the label is followed by whitespace that is
  not only line breaks: after \<open>Date:\<close> and a single space the date is the empty string,
  not absent.
\<close>

theorem date_blank_counterexample:
  "parse_receipt ''Date: '' =
     Inr \<lparr>merchant = Some ''Date:'', date = Some [], invoice_number = None, items = [],
          subtotal = None, tax = None, total_amt = None, parser_used = ''regex''\<rparr>"
  by (simp add: parse_receipt_def bind_err_def text_field_def money_field_def date_rx_def
      invoice_rx_def total_rx_def subtotal_rx_def tax_rx_def rx_match_lits eval_text)





end
